theory Spec2Isabelle
  imports Main "HOL-Library.Word"
begin

section \<open>Common types\<close>

text \<open>
  A C object address is a natural number; a pointer that may be \<open>NULL\<close> is an
  \<open>addr option\<close>, with \<open>None\<close> for \<open>NULL\<close>.
\<close>

type_synonym addr = nat
type_synonym ptr = "addr option"

datatype error =
    EINVAL          \<comment> \<open>\<open>return -EINVAL\<close>\<close>
  | ENODEV          \<comment> \<open>\<open>return -ENODEV\<close>\<close>
  | EIO             \<comment> \<open>\<open>return -EIO\<close>\<close>
  | ENOMEM          \<comment> \<open>\<open>return -ENOMEM\<close>\<close>
  | ASSERT_FAILED   \<comment> \<open>the condition of an \<open>OSMO_ASSERT\<close> is false: the process is aborted\<close>
  | OUT_OF_BOUNDS   \<comment> \<open>access outside the cells of an array: undefined behaviour\<close>

section \<open>Signal bus (signal.c)\<close>

text \<open>
  \<open>struct signal_handler\<close>, without its list linkage: \<open>unsigned int subsys\<close> is a
  32-bit word, \<open>cbfn\<close> the address of the callback function, \<open>data\<close> the opaque
  pointer handed back to the callback.
\<close>

record signal_handler =
  subsys :: "32 word"
  cbfn :: addr
  data :: ptr

text \<open>
  The global state of signal.c: the talloc context \<open>tall_sigh_ctx2\<close> and the list
  \<open>signal_handler_list\<close>. The list type and macros of linuxlist.h are not among the
  sources; the spec describes the registry as "a process-wide ordered collection
  (insertion order preserved)", and the \<open>llist_head\<close> list is the HOL list of its
  entries in the order in which \<open>llist_for_each_entry\<close> visits them.
\<close>

record signal_state =
  tall_sigh_ctx2 :: ptr
  signal_handler_list :: "signal_handler list"

definition signal_init :: signal_state where
  "signal_init = \<lparr>tall_sigh_ctx2 = None, signal_handler_list = []\<rparr>"

text \<open>
  Modelled from the spec: \<open>llist_add_tail\<close> of linuxlist.h is not among the sources; the
  spec says registration "appends a new handler entry to the tail of the registry".
\<close>

definition llist_add_tail :: "'a \<Rightarrow> 'a list \<Rightarrow> 'a list" where
  "llist_add_tail new head = head @ [new]"

text \<open>
  \<open>osmo_signal_register_handler\<close>. The two allocations are the environment's:
  \<open>ctx_alloc\<close> is what \<open>talloc_named_const\<close> would return (it is only called while the
  context is still \<open>NULL\<close>), \<open>sig_alloc\<close> says whether \<open>talloc\<close> of the entry succeeds.
  The result is \<open>None\<close> for \<open>return 0\<close>, with the state after the call.
\<close>

definition osmo_signal_register_handler ::
  "32 word \<Rightarrow> addr \<Rightarrow> ptr \<Rightarrow> ptr \<Rightarrow> bool \<Rightarrow> signal_state \<Rightarrow> error option \<times> signal_state" where
  "osmo_signal_register_handler sub cb dat ctx_alloc sig_alloc st =
     (let st1 = (if tall_sigh_ctx2 st = None then st\<lparr>tall_sigh_ctx2 := ctx_alloc\<rparr> else st) in
      if tall_sigh_ctx2 st1 = None then (Some ENOMEM, st1)
      else if \<not> sig_alloc then (Some ENOMEM, st1)
      else (None, st1\<lparr>signal_handler_list :=
              llist_add_tail \<lparr>subsys = sub, cbfn = cb, data = dat\<rparr> (signal_handler_list st1)\<rparr>))"

text \<open>
  \<open>osmo_signal_unregister_handler\<close>: the \<open>llist_for_each_entry\<close> loop; at the first
  handler equal in all three fields, \<open>llist_del\<close> unlinks it and \<open>break\<close> leaves the loop.
\<close>

fun unregister_loop :: "signal_handler list \<Rightarrow> 32 word \<Rightarrow> addr \<Rightarrow> ptr \<Rightarrow> signal_handler list" where
  "unregister_loop [] sub cb dat = []"
| "unregister_loop (handler # rest) sub cb dat =
     (if cbfn handler = cb \<and> data handler = dat \<and> sub = subsys handler
      then rest
      else handler # unregister_loop rest sub cb dat)"

definition osmo_signal_unregister_handler ::
  "32 word \<Rightarrow> addr \<Rightarrow> ptr \<Rightarrow> signal_state \<Rightarrow> signal_state" where
  "osmo_signal_unregister_handler sub cb dat st =
     st\<lparr>signal_handler_list := unregister_loop (signal_handler_list st) sub cb dat\<rparr>"

text \<open>
  One call \<open>(*handler->cbfn)(subsys, signal, handler->data, signal_data)\<close>: the callee
  and its four arguments.
\<close>

datatype invocation = Invoke addr "32 word" "32 word" ptr ptr

text \<open>
  \<open>osmo_signal_dispatch\<close>: the calls it makes, in the order it makes them. The callbacks
  run outside this model; they are taken not to change the registry while the loop runs
  (the spec leaves that case undefined). The callbacks' return values are discarded by
  the source.
\<close>

fun dispatch_loop :: "signal_handler list \<Rightarrow> 32 word \<Rightarrow> 32 word \<Rightarrow> ptr \<Rightarrow> invocation list" where
  "dispatch_loop [] sub sig signal_data = []"
| "dispatch_loop (handler # rest) sub sig signal_data =
     (if subsys handler \<noteq> sub then dispatch_loop rest sub sig signal_data
      else Invoke (cbfn handler) sub sig (data handler) signal_data
             # dispatch_loop rest sub sig signal_data)"

definition osmo_signal_dispatch :: "signal_state \<Rightarrow> 32 word \<Rightarrow> 32 word \<Rightarrow> ptr \<Rightarrow> invocation list" where
  "osmo_signal_dispatch st sub sig signal_data =
     dispatch_loop (signal_handler_list st) sub sig signal_data"

text \<open>A sequence of register and unregister calls, run from a state.\<close>

datatype signal_op =
    Register "32 word" addr ptr ptr bool
  | Unregister "32 word" addr ptr

fun signal_step :: "signal_state \<Rightarrow> signal_op \<Rightarrow> signal_state" where
  "signal_step st (Register sub cb dat ctx_alloc sig_alloc) =
     snd (osmo_signal_register_handler sub cb dat ctx_alloc sig_alloc st)"
| "signal_step st (Unregister sub cb dat) = osmo_signal_unregister_handler sub cb dat st"

fun run_ops :: "signal_op list \<Rightarrow> signal_state \<Rightarrow> signal_state" where
  "run_ops [] st = st"
| "run_ops (op # ops) st = run_ops ops (signal_step st op)"

section \<open>Process launcher (exec.c)\<close>

subsection \<open>Strings and the C library\<close>

text \<open>
  A \<open>char *\<close> that points to a string is the address of the string; \<open>strs a\<close> is the
  string stored at address \<open>a\<close>, without its terminating NUL. Two addresses may hold
  equal strings, so copying a string and copying a pointer are different things in the
  model. A \<open>NULL\<close>-terminated array of strings that the code only reads (\<open>in\<close>,
  \<open>environ\<close>, \<open>addl_env\<close>) is the list of its pointers before the terminator; a
  whitelist, of which only the strings are ever looked at, is the list of its strings.
  Either is wrapped in \<open>option\<close>, \<open>None\<close> for a \<open>NULL\<close> array pointer.
\<close>

text \<open>\<open>strchr(s, c)\<close> for a character other than NUL: the offset of its first occurrence.\<close>

fun strchr :: "string \<Rightarrow> char \<Rightarrow> nat option" where
  "strchr [] c = None"
| "strchr (x # xs) c = (if x = c then Some 0 else map_option Suc (strchr xs c))"

text \<open>
  \<open>atoi\<close>: leading white space, an optional sign, then decimal digits up to the first
  character that is none. A value outside \<open>int\<close> is undefined behaviour in C and is not
  modelled: the result is the mathematical value.
\<close>

definition isspace :: "char \<Rightarrow> bool" where
  "isspace c = (c \<in> set [CHR '' '', CHR 0x09, CHR 0x0A, CHR 0x0B, CHR 0x0C, CHR 0x0D])"

definition isdigit :: "char \<Rightarrow> bool" where
  "isdigit c = ((48::nat) \<le> of_char c \<and> of_char c \<le> (57::nat))"

fun atoi_digits :: "string \<Rightarrow> int \<Rightarrow> int" where
  "atoi_digits [] acc = acc"
| "atoi_digits (c # cs) acc =
     (if isdigit c then atoi_digits cs (10 * acc + (int (of_char c) - 48)) else acc)"

definition atoi :: "string \<Rightarrow> int" where
  "atoi s =
     (case dropWhile isspace s of
        [] \<Rightarrow> 0
      | c # cs \<Rightarrow>
          if c = CHR ''-'' then - atoi_digits cs 0
          else if c = CHR ''+'' then atoi_digits cs 0
          else atoi_digits (c # cs) 0)"

text \<open>
  \<open>size_t\<close> counters are natural numbers: the code only increments them below
  \<open>out_len\<close> and computes \<open>out_len - 1\<close> after \<open>out_len == 0\<close> has been refused, so
  nothing wraps. \<open>return out_used\<close> converts a \<open>size_t\<close> to the 32-bit \<open>int\<close> result.
\<close>

definition INT_MAX :: nat where
  "INT_MAX = 2147483647"

definition int_of_size_t :: "nat \<Rightarrow> int" where
  "int_of_size_t n = (int n + 2 ^ 31) mod 2 ^ 32 - 2 ^ 31"

subsection \<open>The output array\<close>

text \<open>
  The caller-allocated array \<open>char **out\<close> is the list of its cells, as many as were
  allocated (which \<open>out_len\<close> need not tell truly). A write \<open>out[i] = v\<close> outside the
  cells is \<open>OUT_OF_BOUNDS\<close>.
\<close>

definition write_cell :: "ptr list \<Rightarrow> nat \<Rightarrow> ptr \<Rightarrow> error + ptr list" where
  "write_cell out i v = (if i < length out then Inr (out[i := v]) else Inl OUT_OF_BOUNDS)"

subsection \<open>\<open>osmo_environment_filter\<close>\<close>

definition environment_whitelist :: "string list" where
  "environment_whitelist =
     [''USER'', ''LOGNAME'', ''HOME'',
      ''LANG'', ''LC_ALL'', ''LC_COLLATE'', ''LC_CTYPE'', ''LC_MESSAGES'', ''LC_MONETARY'',
      ''LC_NUMERIC'', ''LC_TIME'',
      ''PATH'',
      ''PWD'',
      ''SHELL'',
      ''TERM'',
      ''TMPDIR'',
      ''LD_LIBRARY_PATH'',
      ''LD_PRELOAD'',
      ''POSIXLY_CORRECT'',
      ''HOSTALIASES'',
      ''TZ'', ''TZDIR'',
      ''TERMCAP'',
      ''COLUMNS'', ''LINES'']"

fun str_in_list :: "string list \<Rightarrow> string \<Rightarrow> bool" where
  "str_in_list [] key = False"
| "str_in_list (ent # list) key = (if ent = key then True else str_in_list list key)"

text \<open>
  The loop over the input entries, from \<open>ent\<close> onwards, with the array and \<open>out_used\<close> as
  they stand. \<open>tmp\<close> is the key: \<open>strncpy\<close> copies the \<open>eq_pos\<close> characters before the
  separator into the 256-byte buffer (\<open>ARRAY_SIZE(tmp)\<close>), and \<open>tmp[eq_pos] = 0\<close> ends it.
\<close>

fun filter_loop ::
  "(addr \<Rightarrow> string) \<Rightarrow> string list \<Rightarrow> nat \<Rightarrow> addr list \<Rightarrow> ptr list \<Rightarrow> nat
     \<Rightarrow> error + (ptr list \<times> nat)" where
  "filter_loop strs whitelist out_len [] out out_used = Inr (out, out_used)"
| "filter_loop strs whitelist out_len (ent # rest) out out_used =
     (case strchr (strs ent) CHR ''='' of
        None \<Rightarrow> filter_loop strs whitelist out_len rest out out_used
      | Some eq_pos \<Rightarrow>
          if eq_pos \<ge> 256 then filter_loop strs whitelist out_len rest out out_used
          else
            let tmp = take eq_pos (strs ent) in
            if str_in_list whitelist tmp then
              if out_used = out_len - 1 then Inr (out, out_used)
              else
                (case write_cell out out_used (Some ent) of
                   Inl e \<Rightarrow> Inl e
                 | Inr out' \<Rightarrow> filter_loop strs whitelist out_len rest out' (out_used + 1))
            else filter_loop strs whitelist out_len rest out out_used)"

text \<open>The result is the returned \<open>int\<close> and the array after the call.\<close>

fun osmo_environment_filter ::
  "(addr \<Rightarrow> string) \<Rightarrow> ptr list option \<Rightarrow> nat \<Rightarrow> addr list option \<Rightarrow> string list option
     \<Rightarrow> error + (int \<times> ptr list)" where
  "osmo_environment_filter strs None out_len inp whitelist = Inl EINVAL"
| "osmo_environment_filter strs (Some out) out_len inp None = Inl EINVAL"
| "osmo_environment_filter strs (Some out) out_len None (Some whitelist) =
     (if out_len = 0 then Inl EINVAL
      else
        (case write_cell out 0 None of
           Inl e \<Rightarrow> Inl e
         | Inr out' \<Rightarrow> Inr (1, out')))"
| "osmo_environment_filter strs (Some out) out_len (Some ents) (Some whitelist) =
     (if out_len = 0 then Inl EINVAL
      else
        (case filter_loop strs whitelist out_len ents out 0 of
           Inl e \<Rightarrow> Inl e
         | Inr (out1, out_used) \<Rightarrow>
             if \<not> out_used < out_len then Inl ASSERT_FAILED
             else
               (case write_cell out1 out_used None of
                  Inl e \<Rightarrow> Inl e
                | Inr out2 \<Rightarrow> Inr (int_of_size_t (out_used + 1), out2))))"

subsection \<open>\<open>osmo_environment_append\<close>\<close>

text \<open>
  \<open>for (out_used = 0; out[out_used]; out_used++) {}\<close>: the index of the first \<open>NULL\<close>
  cell; reading past the last cell is \<open>OUT_OF_BOUNDS\<close>.
\<close>

function seek_end :: "ptr list \<Rightarrow> nat \<Rightarrow> error + nat" where
  "seek_end out out_used =
     (if out_used \<ge> length out then Inl OUT_OF_BOUNDS
      else if out ! out_used = None then Inr out_used
      else seek_end out (out_used + 1))"
  by pat_completeness auto
termination
  by (relation "measure (\<lambda>(out, out_used). length out - out_used)") auto

declare seek_end.simps [simp del]

text \<open>\<open>for (; *in && out_used < out_len-1; in++) out[out_used++] = *in;\<close>\<close>

fun append_loop :: "nat \<Rightarrow> addr list \<Rightarrow> ptr list \<Rightarrow> nat \<Rightarrow> error + (ptr list \<times> nat)" where
  "append_loop out_len [] out out_used = Inr (out, out_used)"
| "append_loop out_len (ent # rest) out out_used =
     (if out_used < out_len - 1 then
        (case write_cell out out_used (Some ent) of
           Inl e \<Rightarrow> Inl e
         | Inr out' \<Rightarrow> append_loop out_len rest out' (out_used + 1))
      else Inr (out, out_used))"

fun osmo_environment_append ::
  "ptr list option \<Rightarrow> nat \<Rightarrow> addr list option \<Rightarrow> error + (int \<times> ptr list)" where
  "osmo_environment_append None out_len inp = Inl EINVAL"
| "osmo_environment_append (Some out) out_len inp =
     (if out_len = 0 then Inl EINVAL
      else
        (case seek_end out 0 of
           Inl e \<Rightarrow> Inl e
         | Inr out_used \<Rightarrow>
             (case inp of
                None \<Rightarrow>
                  if out_used = 0 then
                    (case write_cell out out_used None of
                       Inl e \<Rightarrow> Inl e
                     | Inr out' \<Rightarrow> Inr (int_of_size_t (out_used + 1), out'))
                  else Inr (int_of_size_t out_used, out)
              | Some ents \<Rightarrow>
                  (case append_loop out_len ents out out_used of
                     Inl e \<Rightarrow> Inl e
                   | Inr (out1, out_used1) \<Rightarrow>
                       if \<not> out_used1 < out_len then Inl ASSERT_FAILED
                       else
                         (case write_cell out1 out_used1 None of
                            Inl e \<Rightarrow> Inl e
                          | Inr out2 \<Rightarrow> Inr (int_of_size_t (out_used1 + 1), out2))))))"

subsection \<open>\<open>osmo_close_all_fds_above\<close>\<close>

text \<open>
  The process as the operating system sees it: the descriptors that are open, the
  \<open>close\<close> calls made so far (in order), and the lines handed to the logging
  collaborator.
\<close>

datatype log_line =
    Cannot_open_proc_self_fd
  | Error_closing_fd int
  | Error_executing_command string

record process =
  open_fds :: "int list"
  close_calls :: "int list"
  log_lines :: "log_line list"

text \<open>
  An open directory stream: its descriptor (\<open>dirfd\<close>) and the names (\<open>d_name\<close>) that the
  successive \<open>readdir\<close> calls deliver before \<open>NULL\<close>.
\<close>

record dir =
  dirfd :: int
  d_names :: "string list"

text \<open>
  The system calls. What \<open>opendir("/proc/self/fd")\<close> returns is the environment's
  (\<open>None\<close> for \<open>NULL\<close>); a stream that has been opened holds its descriptor open,
  and \<open>closedir\<close> releases it. \<open>close(fd)\<close> fails on a descriptor that is not open and
  wherever the environment's \<open>close_fails\<close> says so, and then leaves the descriptors as
  they are; it returns 0 or -1.
\<close>

definition opendir :: "dir \<Rightarrow> process \<Rightarrow> process" where
  "opendir dr p = p\<lparr>open_fds := open_fds p @ [dirfd dr]\<rparr>"

definition closedir :: "dir \<Rightarrow> process \<Rightarrow> process" where
  "closedir dr p = p\<lparr>open_fds := removeAll (dirfd dr) (open_fds p)\<rparr>"

definition close_fd :: "(int \<Rightarrow> bool) \<Rightarrow> int \<Rightarrow> process \<Rightarrow> int \<times> process" where
  "close_fd close_fails fd p =
     (if fd \<in> set (open_fds p) \<and> \<not> close_fails fd
      then (0, p\<lparr>open_fds := removeAll fd (open_fds p), close_calls := close_calls p @ [fd]\<rparr>)
      else (-1, p\<lparr>close_calls := close_calls p @ [fd]\<rparr>))"

text \<open>
  Modelled from the spec: \<open>LOGP\<close> of logging.h is not among the sources; the spec
  delegates logging to "an external logging collaborator" of which "the core only needs
  a log one line with severity X capability". The line is added to the process's log.
\<close>

definition LOGP :: "log_line \<Rightarrow> process \<Rightarrow> process" where
  "LOGP line p = p\<lparr>log_lines := log_lines p @ [line]\<rparr>"

text \<open>The \<open>while ((ent = readdir(dir)))\<close> loop over the names still to be read.\<close>

fun close_loop :: "(int \<Rightarrow> bool) \<Rightarrow> int \<Rightarrow> int \<Rightarrow> string list \<Rightarrow> process \<Rightarrow> process" where
  "close_loop close_fails last_fd_to_keep dfd [] p = p"
| "close_loop close_fails last_fd_to_keep dfd (d_name # rest) p =
     (let fd = atoi d_name in
      if fd \<le> last_fd_to_keep then close_loop close_fails last_fd_to_keep dfd rest p
      else if fd = dfd then close_loop close_fails last_fd_to_keep dfd rest p
      else
        (case close_fd close_fails fd p of
           (rc, p') \<Rightarrow>
             close_loop close_fails last_fd_to_keep dfd rest
               (if rc \<noteq> 0 then LOGP (Error_closing_fd fd) p' else p')))"

text \<open>The result is \<open>None\<close> for \<open>return 0\<close>, with the process after the call.\<close>

definition osmo_close_all_fds_above ::
  "dir option \<Rightarrow> (int \<Rightarrow> bool) \<Rightarrow> int \<Rightarrow> process \<Rightarrow> error option \<times> process" where
  "osmo_close_all_fds_above opendir_result close_fails last_fd_to_keep p =
     (case opendir_result of
        None \<Rightarrow> (Some ENODEV, LOGP Cannot_open_proc_self_fd p)
      | Some dr \<Rightarrow>
          (None,
           closedir dr
             (close_loop close_fails last_fd_to_keep (dirfd dr) (d_names dr) (opendir dr p))))"

subsection \<open>\<open>osmo_system_nowait\<close>\<close>

text \<open>
  The calls a process makes inside \<open>osmo_system_nowait\<close> after \<open>fork\<close> has returned,
  in the order it makes them.
\<close>

datatype call =
    Close_all_fds_above int
  | Environment_filter
  | Environment_append
  | Execle

text \<open>
  How \<open>osmo_system_nowait\<close> ends in the process that runs it: it returns an \<open>int\<close>, or
  \<open>execle\<close> replaces the process image by program \<open>path\<close> with arguments \<open>argv\<close> and
  environment \<open>envp\<close> (the strings of the array up to its first \<open>NULL\<close>).
\<close>

datatype outcome =
    Returns int
  | Replaced string "string list" "string list"

text \<open>
  The child's side (\<open>rc == 0\<close>). \<open>new_env\<close> is a local array of 1024 cells whose first
  contents are indeterminate: \<open>garbage\<close> gives them. The results of the three helper calls
  are discarded by the source; only a fault inside one of them ends the path early.
  \<open>execle_ok\<close> is the environment's: whether the shell can be executed.
\<close>

definition envp_of :: "(addr \<Rightarrow> string) \<Rightarrow> ptr list \<Rightarrow> string list" where
  "envp_of strs new_env = map strs (map the (takeWhile (\<lambda>c. c \<noteq> None) new_env))"

definition child ::
  "(addr \<Rightarrow> string) \<Rightarrow> addr list option \<Rightarrow> (nat \<Rightarrow> ptr) \<Rightarrow> dir option \<Rightarrow> (int \<Rightarrow> bool) \<Rightarrow> bool
     \<Rightarrow> string \<Rightarrow> addr list option \<Rightarrow> process
     \<Rightarrow> (error + outcome) \<times> call list \<times> process" where
  "child strs environ garbage opendir_result close_fails execle_ok command addl_env p =
     (let new_env = map garbage [0..<1024];
          p1 = snd (osmo_close_all_fds_above opendir_result close_fails 2 p);
          calls1 = [Close_all_fds_above 2] in
      case osmo_environment_filter strs (Some new_env) 1024 environ (Some environment_whitelist) of
        Inl e \<Rightarrow> (Inl e, calls1 @ [Environment_filter], p1)
      | Inr (n1, new_env1) \<Rightarrow>
          let calls2 = calls1 @ [Environment_filter] in
          (case osmo_environment_append (Some new_env1) 1024 addl_env of
             Inl e \<Rightarrow> (Inl e, calls2 @ [Environment_append], p1)
           | Inr (n2, new_env2) \<Rightarrow>
               let calls3 = calls2 @ [Environment_append, Execle] in
               if execle_ok
               then (Inr (Replaced ''/bin/sh'' [''sh'', ''-c'', command] (envp_of strs new_env2)),
                     calls3, p1)
               else (Inl EIO, calls3, LOGP (Error_executing_command command) p1)))"

text \<open>
  \<open>fork_rc\<close> is what \<open>fork()\<close> returns in the process that goes on: 0 in the child, the
  child's process identifier in the parent, -1 in the parent when no child was made.
\<close>

definition osmo_system_nowait ::
  "int \<Rightarrow> (addr \<Rightarrow> string) \<Rightarrow> addr list option \<Rightarrow> (nat \<Rightarrow> ptr) \<Rightarrow> dir option \<Rightarrow> (int \<Rightarrow> bool) \<Rightarrow> bool
     \<Rightarrow> string \<Rightarrow> addr list option \<Rightarrow> process
     \<Rightarrow> (error + outcome) \<times> call list \<times> process" where
  "osmo_system_nowait fork_rc strs environ garbage opendir_result close_fails execle_ok
       command addl_env p =
     (if fork_rc = 0
      then child strs environ garbage opendir_result close_fails execle_ok command addl_env p
      else (Inr (Returns fork_rc), [], p))"

section \<open>Notions of the specification\<close>

text \<open>
  The key of an environment entry is what stands before its first \<open>=\<close>. An entry passes
  the filter when it has a separator, its key is shorter than the 256-byte staging
  buffer, and its key is one of the whitelist's strings.
\<close>

definition key_of :: "string \<Rightarrow> string" where
  "key_of s = takeWhile (\<lambda>c. c \<noteq> CHR ''='') s"

definition passes :: "(addr \<Rightarrow> string) \<Rightarrow> string list \<Rightarrow> addr \<Rightarrow> bool" where
  "passes strs whitelist ent \<longleftrightarrow>
     CHR ''='' \<in> set (strs ent)
     \<and> length (key_of (strs ent)) < 256
     \<and> key_of (strs ent) \<in> set whitelist"

text \<open>
  A sentinel-terminated array that holds the entries \<open>ents\<close>: the cells start with
  pointers to them, then comes a \<open>NULL\<close> cell; what the cells after it hold is free.
\<close>

definition holds :: "ptr list \<Rightarrow> addr list \<Rightarrow> bool" where
  "holds out ents \<longleftrightarrow>
     length ents < length out \<and> take (length ents) out = map Some ents \<and> out ! length ents = None"

text \<open>
  The array \<open>out\<close> after pointers to \<open>ents\<close> and then a \<open>NULL\<close> have been stored in its
  first cells: the cells behind the sentinel are those of \<open>out\<close>.
\<close>

definition written :: "addr list \<Rightarrow> ptr list \<Rightarrow> ptr list" where
  "written ents out = map Some ents @ None # drop (length ents + 1) out"

text \<open>
  The environment that the launch builds for the shell: the entries of \<open>environ\<close> that
  pass the filter with the built-in whitelist, then the additional entries, as far as
  the 1024 cells of \<open>new_env\<close> leave room for them before the sentinel.
\<close>

definition built_env :: "(addr \<Rightarrow> string) \<Rightarrow> addr list option \<Rightarrow> addr list option \<Rightarrow> addr list" where
  "built_env strs environ addl_env =
     (let kept = (case environ of
                    None \<Rightarrow> []
                  | Some ents \<Rightarrow> take 1023 (filter (passes strs environment_whitelist) ents))
      in kept @ (case addl_env of None \<Rightarrow> [] | Some ents \<Rightarrow> take (1023 - length kept) ents))"

section \<open>Example data\<close>

text \<open>Five strings in memory, at the addresses 1 to 5, for the worked examples.\<close>

definition example_strs :: "addr \<Rightarrow> string" where
  "example_strs a =
     (if a = 1 then ''PATH=/bin''
      else if a = 2 then ''MALFORMED''
      else if a = 3 then ''HOME=/root''
      else if a = 4 then ''FOO=bar''
      else ''TERM=xterm'')"

text \<open>
  A stack whose cells all happen to hold \<open>NULL\<close>, a system in which no \<open>close\<close> fails,
  a process with the descriptors 0, 1, 2 and 5 open, and the listing of its descriptor
  directory once that is open on descriptor 3.
\<close>

definition example_garbage :: "nat \<Rightarrow> ptr" where
  "example_garbage i = None"

definition example_close_fails :: "int \<Rightarrow> bool" where
  "example_close_fails fd = False"

definition example_process :: process where
  "example_process = \<lparr>open_fds = [0, 1, 2, 5], close_calls = [], log_lines = []\<rparr>"

definition example_dir :: dir where
  "example_dir = \<lparr>dirfd = 3, d_names = [''.'', ''..'', ''0'', ''1'', ''2'', ''3'', ''5'']\<rparr>"

section \<open>Properties of the signal bus\<close>

lemma dispatch_loop_filter:
  "dispatch_loop hs sub sig sd =
     map (\<lambda>h. Invoke (cbfn h) sub sig (data h) sd) (filter (\<lambda>h. subsys h = sub) hs)"
  by (induction hs) simp_all

lemma unregister_loop_no_match:
  "\<forall>h \<in> set hs. \<not> (subsys h = sub \<and> cbfn h = cb \<and> data h = dat)
     \<Longrightarrow> unregister_loop hs sub cb dat = hs"
  by (induction hs) auto

lemma unregister_loop_first_match:
  "\<forall>h \<in> set pre. \<not> (subsys h = sub \<and> cbfn h = cb \<and> data h = dat)
     \<Longrightarrow> subsys x = sub \<and> cbfn x = cb \<and> data x = dat
     \<Longrightarrow> unregister_loop (pre @ x # post) sub cb dat = pre @ post"
  by (induction pre) auto

text \<open>
  Claim C1. After any sequence of register and unregister calls, a dispatch for a
  subsystem calls exactly the handlers that are then in the registry for that subsystem,
  each once, in the order of the registry, with the arguments (subsystem, signal, the
  handler's data, signal data); handlers of another subsystem are not called. The order
  of the registry is the order of registration: a registration that succeeds puts its
  handler behind all others, so that the next dispatch for its subsystem makes the same
  calls as before and then the new one, and a dispatch for any other subsystem is as before.
\<close>

theorem dispatch_invokes_registered:
  "osmo_signal_dispatch (run_ops ops signal_init) sub sig sd =
     map (\<lambda>h. Invoke (cbfn h) sub sig (data h) sd)
       (filter (\<lambda>h. subsys h = sub) (signal_handler_list (run_ops ops signal_init)))
   \<and> (\<forall>s cb dat ctx_alloc sig_alloc st'.
        osmo_signal_register_handler s cb dat ctx_alloc sig_alloc (run_ops ops signal_init)
          = (None, st')
        \<longrightarrow> signal_handler_list st' =
              signal_handler_list (run_ops ops signal_init) @ [\<lparr>subsys = s, cbfn = cb, data = dat\<rparr>]
            \<and> osmo_signal_dispatch st' s sig sd =
              osmo_signal_dispatch (run_ops ops signal_init) s sig sd @ [Invoke cb s sig dat sd]
            \<and> (sub \<noteq> s \<longrightarrow> osmo_signal_dispatch st' sub sig sd =
              osmo_signal_dispatch (run_ops ops signal_init) sub sig sd))"
  by (auto simp: osmo_signal_dispatch_def dispatch_loop_filter osmo_signal_register_handler_def
        llist_add_tail_def Let_def split: if_splits)

theorem dispatch_invokes_registered_witness:
  "osmo_signal_dispatch
     (run_ops [Register 1 10 (Some 100) (Some 7) True, Register 2 20 None None True,
               Register 1 30 (Some 300) None True, Register 1 10 (Some 100) None True,
               Unregister 1 10 (Some 100), Register 1 40 None None False] signal_init)
     1 5 (Some 9)
     = [Invoke 30 1 5 (Some 300) (Some 9), Invoke 10 1 5 (Some 100) (Some 9)]
   \<and> osmo_signal_register_handler 1 50 None None True
       (run_ops [Register 1 10 (Some 100) (Some 7) True, Register 2 20 None None True,
               Register 1 30 (Some 300) None True, Register 1 10 (Some 100) None True,
               Unregister 1 10 (Some 100), Register 1 40 None None False] signal_init)
     = (None, \<lparr>tall_sigh_ctx2 = Some 7, signal_handler_list =
          [\<lparr>subsys = 2, cbfn = 20, data = None\<rparr>, \<lparr>subsys = 1, cbfn = 30, data = Some 300\<rparr>,
           \<lparr>subsys = 1, cbfn = 10, data = Some 100\<rparr>, \<lparr>subsys = 1, cbfn = 50, data = None\<rparr>]\<rparr>)
   \<and> osmo_signal_dispatch
       \<lparr>tall_sigh_ctx2 = Some 7, signal_handler_list =
          [\<lparr>subsys = 2, cbfn = 20, data = None\<rparr>, \<lparr>subsys = 1, cbfn = 30, data = Some 300\<rparr>,
           \<lparr>subsys = 1, cbfn = 10, data = Some 100\<rparr>, \<lparr>subsys = 1, cbfn = 50, data = None\<rparr>]\<rparr>
       1 5 (Some 9)
     = [Invoke 30 1 5 (Some 300) (Some 9), Invoke 10 1 5 (Some 100) (Some 9),
        Invoke 50 1 5 None (Some 9)]"
proof -
  let ?ops = "[Register 1 10 (Some 100) (Some 7) True, Register 2 20 None None True,
               Register 1 30 (Some 300) None True, Register 1 10 (Some 100) None True,
               Unregister 1 10 (Some 100), Register 1 40 None None False]"
  let ?st' = "\<lparr>tall_sigh_ctx2 = Some 7, signal_handler_list =
          [\<lparr>subsys = 2, cbfn = 20, data = None\<rparr>, \<lparr>subsys = 1, cbfn = 30, data = Some 300\<rparr>,
           \<lparr>subsys = 1, cbfn = 10, data = Some 100\<rparr>, \<lparr>subsys = 1, cbfn = 50, data = None\<rparr>]\<rparr>"
  have run: "run_ops ?ops signal_init =
      \<lparr>tall_sigh_ctx2 = Some 7, signal_handler_list =
          [\<lparr>subsys = 2, cbfn = 20, data = None\<rparr>, \<lparr>subsys = 1, cbfn = 30, data = Some 300\<rparr>,
           \<lparr>subsys = 1, cbfn = 10, data = Some 100\<rparr>]\<rparr>"
    by code_simp
  have reg: "osmo_signal_register_handler 1 50 None None True (run_ops ?ops signal_init)
      = (None, ?st')"
    unfolding run by code_simp
  note claim = dispatch_invokes_registered [of ?ops 1 5 "Some 9"]
  have before: "osmo_signal_dispatch (run_ops ?ops signal_init) 1 5 (Some 9)
      = [Invoke 30 1 5 (Some 300) (Some 9), Invoke 10 1 5 (Some 100) (Some 9)]"
    using claim [THEN conjunct1] unfolding run by simp
  have after: "osmo_signal_dispatch ?st' 1 5 (Some 9)
      = osmo_signal_dispatch (run_ops ?ops signal_init) 1 5 (Some 9)
          @ [Invoke 50 1 5 None (Some 9)]"
    using claim [THEN conjunct2, rule_format, OF reg] by (rule conjunct2 [THEN conjunct1])
  show ?thesis
    using reg before after by (simp only: append.simps simp_thms)
qed

text \<open>
  Claim C6. Unregistering removes the first handler of the registry that agrees with
  the given subsystem, callback and data in all three, and nothing else: the handlers
  before it and behind it stay, later duplicates among them. When no handler agrees in
  all three, the state is left as it was.
\<close>

theorem unregister_removes_first_match:
  "(\<forall>pre x post.
      signal_handler_list st = pre @ x # post
      \<and> (\<forall>h \<in> set pre. \<not> (subsys h = sub \<and> cbfn h = cb \<and> data h = dat))
      \<and> (subsys x = sub \<and> cbfn x = cb \<and> data x = dat)
      \<longrightarrow> osmo_signal_unregister_handler sub cb dat st = st\<lparr>signal_handler_list := pre @ post\<rparr>)
   \<and> ((\<forall>h \<in> set (signal_handler_list st). \<not> (subsys h = sub \<and> cbfn h = cb \<and> data h = dat))
      \<longrightarrow> osmo_signal_unregister_handler sub cb dat st = st)"
  by (auto simp: osmo_signal_unregister_handler_def unregister_loop_no_match
      unregister_loop_first_match)

theorem unregister_removes_first_match_witness:
  "osmo_signal_unregister_handler 1 10 (Some 100)
     \<lparr>tall_sigh_ctx2 = Some 7, signal_handler_list =
        [\<lparr>subsys = 2, cbfn = 10, data = Some 100\<rparr>, \<lparr>subsys = 1, cbfn = 10, data = Some 100\<rparr>,
         \<lparr>subsys = 1, cbfn = 10, data = None\<rparr>, \<lparr>subsys = 1, cbfn = 10, data = Some 100\<rparr>]\<rparr>
   = \<lparr>tall_sigh_ctx2 = Some 7, signal_handler_list =
        [\<lparr>subsys = 2, cbfn = 10, data = Some 100\<rparr>,
         \<lparr>subsys = 1, cbfn = 10, data = None\<rparr>, \<lparr>subsys = 1, cbfn = 10, data = Some 100\<rparr>]\<rparr>
   \<and> osmo_signal_unregister_handler 1 30 (Some 100)
     \<lparr>tall_sigh_ctx2 = Some 7, signal_handler_list =
        [\<lparr>subsys = 2, cbfn = 10, data = Some 100\<rparr>, \<lparr>subsys = 1, cbfn = 10, data = Some 100\<rparr>]\<rparr>
   = \<lparr>tall_sigh_ctx2 = Some 7, signal_handler_list =
        [\<lparr>subsys = 2, cbfn = 10, data = Some 100\<rparr>, \<lparr>subsys = 1, cbfn = 10, data = Some 100\<rparr>]\<rparr>"
proof -
  let ?a = "\<lparr>subsys = 1, cbfn = 10, data = Some 100\<rparr>"
  let ?b = "\<lparr>subsys = 2, cbfn = 10, data = Some 100\<rparr>"
  let ?c = "\<lparr>subsys = 1, cbfn = 10, data = None\<rparr>"
  have first: "osmo_signal_unregister_handler 1 10 (Some 100)
      \<lparr>tall_sigh_ctx2 = Some 7, signal_handler_list = [?b, ?a, ?c, ?a]\<rparr>
      = \<lparr>tall_sigh_ctx2 = Some 7, signal_handler_list = [?b, ?c, ?a]\<rparr>"
    using unregister_removes_first_match
      [where st = "\<lparr>tall_sigh_ctx2 = Some 7, signal_handler_list = [?b, ?a, ?c, ?a]\<rparr>"
         and sub = 1 and cb = 10 and dat = "Some 100",
       THEN conjunct1, rule_format, of "[?b]" ?a "[?c, ?a]"]
    by simp
  have none: "osmo_signal_unregister_handler 1 30 (Some 100)
      \<lparr>tall_sigh_ctx2 = Some 7, signal_handler_list = [?b, ?a]\<rparr>
      = \<lparr>tall_sigh_ctx2 = Some 7, signal_handler_list = [?b, ?a]\<rparr>"
    using unregister_removes_first_match
      [where st = "\<lparr>tall_sigh_ctx2 = Some 7, signal_handler_list = [?b, ?a]\<rparr>"
         and sub = 1 and cb = 30 and dat = "Some 100", THEN conjunct2]
    by simp
  from first none show ?thesis by simp
qed

section \<open>Properties of the environment filter\<close>

lemma strchr_takeWhile:
  "strchr s c = (if c \<in> set s then Some (length (takeWhile (\<lambda>x. x \<noteq> c) s)) else None)"
  by (induction s) auto

lemma str_in_list_set: "str_in_list list key \<longleftrightarrow> key \<in> set list"
  by (induction list) auto

lemma take_key: "take (length (takeWhile P s)) s = takeWhile P s"
  by (induction s) auto

lemma filter_loop_step:
  "filter_loop strs wl out_len (ent # rest) out out_used =
     (if passes strs wl ent then
        if out_used = out_len - 1 then Inr (out, out_used)
        else (case write_cell out out_used (Some ent) of
                Inl e \<Rightarrow> Inl e
              | Inr out' \<Rightarrow> filter_loop strs wl out_len rest out' (out_used + 1))
      else filter_loop strs wl out_len rest out out_used)"
  by (simp add: strchr_takeWhile str_in_list_set passes_def key_of_def take_key Let_def)

lemma take_Suc_update: "i < length out \<Longrightarrow> take (Suc i) (out[i := v]) = take i out @ [v]"
  by (simp add: take_Suc_conv_app_nth)

lemma filter_loop_result:
  "out_used < out_len \<Longrightarrow> out_len \<le> length out \<Longrightarrow>
   filter_loop strs wl out_len ents out out_used =
     Inr (take out_used out
            @ map Some (take (out_len - 1 - out_used) (filter (passes strs wl) ents))
            @ drop (out_used + length (take (out_len - 1 - out_used) (filter (passes strs wl) ents))) out,
          out_used + length (take (out_len - 1 - out_used) (filter (passes strs wl) ents)))"
proof (induction ents arbitrary: out out_used)
  case Nil
  then show ?case by simp
next
  case (Cons ent rest)
  show ?case
  proof (cases "passes strs wl ent")
    case False
    then show ?thesis using Cons by (simp add: filter_loop_step del: filter_loop.simps)
  next
    case True
    show ?thesis
    proof (cases "out_used = out_len - 1")
      case True
      with \<open>passes strs wl ent\<close> show ?thesis
        by (simp add: filter_loop_step del: filter_loop.simps)
    next
      case False
      with Cons.prems have lt: "out_used + 1 < out_len" and inb: "out_used < length out"
        by simp_all
      have len: "out_len \<le> length (out[out_used := Some ent])"
        using Cons.prems by simp
      define T' where "T' = take (out_len - 1 - (out_used + 1)) (filter (passes strs wl) rest)"
      have sub: "out_len - 1 - out_used = Suc (out_len - 1 - (out_used + 1))"
        using lt by simp
      have T: "take (out_len - 1 - out_used) (filter (passes strs wl) (ent # rest)) = ent # T'"
        unfolding T'_def sub using \<open>passes strs wl ent\<close> by simp
      have IH: "filter_loop strs wl out_len rest (out[out_used := Some ent]) (out_used + 1) =
          Inr (take (out_used + 1) (out[out_used := Some ent]) @ map Some T'
                 @ drop (out_used + 1 + length T') (out[out_used := Some ent]),
               out_used + 1 + length T')"
        unfolding T'_def by (rule Cons.IH [OF lt len])
      have step: "filter_loop strs wl out_len (ent # rest) out out_used =
          filter_loop strs wl out_len rest (out[out_used := Some ent]) (out_used + 1)"
        using \<open>passes strs wl ent\<close> False inb
        by (simp add: filter_loop_step write_cell_def del: filter_loop.simps)
      show ?thesis
        unfolding step IH T using inb by (simp add: take_Suc_update)
    qed
  qed
qed

lemma update_at_end:
  "length xs < length out \<Longrightarrow>
   (xs @ drop (length xs) out)[length xs := v] = xs @ v # drop (length xs + 1) out"
  by (simp add: list_update_append upd_conv_take_nth_drop)

lemma filter_result:
  assumes "1 \<le> out_len" and "out_len \<le> length out"
  shows "osmo_environment_filter strs (Some out) out_len (Some ents) (Some wl) =
     Inr (int_of_size_t (length (take (out_len - 1) (filter (passes strs wl) ents)) + 1),
          written (take (out_len - 1) (filter (passes strs wl) ents)) out)"
proof -
  define T where "T = take (out_len - 1) (filter (passes strs wl) ents)"
  have lt: "0 < out_len" using assms by simp
  have loop: "filter_loop strs wl out_len ents out 0 =
      Inr (map Some T @ drop (length T) out, length T)"
    using filter_loop_result [OF lt assms(2), of strs wl ents] by (simp add: T_def)
  have lenT: "length T < out_len" using assms by (simp add: T_def)
  then have lenT': "length (map Some T :: ptr list) < length out" using assms by simp
  have upd: "(map Some T @ drop (length T) out)[length T := None] = written T out"
    using update_at_end [OF lenT', of None] by (simp add: written_def)
  have "osmo_environment_filter strs (Some out) out_len (Some ents) (Some wl) =
      Inr (int_of_size_t (length T + 1), written T out)"
    using lt lenT lenT' by (simp add: loop write_cell_def upd)
  then show ?thesis by (simp only: T_def)
qed


lemma filter_loop_fault:
  "filter_loop strs wl out_len ents out out_used = Inl e \<Longrightarrow> e = OUT_OF_BOUNDS"
proof (induction ents arbitrary: out out_used)
  case Nil
  then show ?case by simp
next
  case (Cons ent rest)
  then show ?case
    by (auto simp: filter_loop_step write_cell_def simp del: filter_loop.simps
        split: if_splits)
qed

lemma holds_written: "length ents < length out \<Longrightarrow> holds (written ents out) ents"
  by (simp add: holds_def written_def nth_append)

lemma length_written: "length ents < length out \<Longrightarrow> length (written ents out) = length out"
  by (simp add: written_def)

lemma drop_written:
  "length ents < n \<Longrightarrow> drop n (written ents out) = drop n out"
  by (simp add: written_def drop_Cons')

lemma filter_count_positive:
  assumes "osmo_environment_filter strs out out_len inp wl = Inr (n, out')"
    and "out_len \<le> INT_MAX"
  shows "0 < n"
proof (cases inp)
  case None
  with assms(1) show ?thesis
    by (cases out; cases wl) (auto simp: write_cell_def split: if_splits)
next
  case (Some ents)
  with assms(1) obtain out_used where "out_used < out_len"
    and "n = int_of_size_t (out_used + 1)"
    by (cases out; cases wl)
      (auto simp: write_cell_def split: if_splits sum.splits prod.splits)
  with assms(2) show ?thesis
    by (simp add: int_of_size_t_def INT_MAX_def)
qed




text \<open>
  Claim C3. The call returns \<open>-EINVAL\<close> exactly when the output array pointer is
  \<open>NULL\<close>, the capacity is 0 or the whitelist pointer is \<open>NULL\<close>. With these three in
  order and a \<open>NULL\<close> input, the call stores \<open>NULL\<close> in cell 0, leaves the other cells
  alone and returns 1, whatever the whitelist holds. A count that the call returns is
  positive, for every capacity that an \<open>int\<close> can hold: it is never taken for an error.
\<close>

theorem filter_einval_iff:
  "(osmo_environment_filter strs out out_len inp wl = Inl EINVAL
      \<longleftrightarrow> out = None \<or> out_len = 0 \<or> wl = None)
   \<and> (1 \<le> out_len \<and> cells \<noteq> [] \<longrightarrow>
        osmo_environment_filter strs (Some cells) out_len None (Some whitelist)
          = Inr (1, None # tl cells))
   \<and> (osmo_environment_filter strs out out_len inp wl = Inr (n, out') \<and> out_len \<le> INT_MAX
        \<longrightarrow> 0 < n)"
proof (intro conjI impI)
  show "osmo_environment_filter strs out out_len inp wl = Inl EINVAL
      \<longleftrightarrow> out = None \<or> out_len = 0 \<or> wl = None"
  proof (cases out)
    case None
    then show ?thesis by simp
  next
    case (Some cells)
    show ?thesis
    proof (cases wl)
      case None
      then show ?thesis using Some by simp
    next
      case (Some whitelist)
      show ?thesis
      proof (cases inp)
        case None
        then show ?thesis
          using \<open>out = Some cells\<close> \<open>wl = Some whitelist\<close>
          by (simp add: write_cell_def)
      next
        case (Some ents)
        then show ?thesis
          using \<open>out = Some cells\<close> \<open>wl = Some whitelist\<close>
          by (auto simp: write_cell_def split: sum.splits dest: filter_loop_fault)
      qed
    qed
  qed
next
  assume "1 \<le> out_len \<and> cells \<noteq> []"
  then show "osmo_environment_filter strs (Some cells) out_len None (Some whitelist)
          = Inr (1, None # tl cells)"
    by (cases cells) (simp_all add: write_cell_def)
next
  assume "osmo_environment_filter strs out out_len inp wl = Inr (n, out') \<and> out_len \<le> INT_MAX"
  then show "0 < n"
    using filter_count_positive by blast
qed

theorem filter_einval_iff_witness:
  "osmo_environment_filter example_strs (Some [Some 77, Some 78, Some 79, Some 80]) 4 None
      (Some [''HOME'', ''PATH''])
    = Inr (1, [None, Some 78, Some 79, Some 80])
   \<and> osmo_environment_filter example_strs (Some [Some 77]) 0 (Some [1]) (Some [''PATH''])
       = Inl EINVAL
   \<and> osmo_environment_filter example_strs (Some [Some 77]) 1 (Some [1]) (Some [''PATH''])
       \<noteq> Inl EINVAL"
  using filter_einval_iff [where strs = example_strs and out = "Some [Some 77]" and out_len = 0
      and inp = "Some [1]" and wl = "Some [''PATH'']"]
    filter_einval_iff [where strs = example_strs and out = "Some [Some 77]" and out_len = 1
      and inp = "Some [1]" and wl = "Some [''PATH'']"]
    filter_einval_iff [where strs = example_strs and out_len = 4
      and cells = "[Some 77, Some 78, Some 79, Some 80]" and whitelist = "[''HOME'', ''PATH'']"]
  by simp

text \<open>
  Claim C4, as the code has it. In a call with a capacity \<open>out_len \<ge> 1\<close> that the array
  really has: an entry without \<open>=\<close>, or with a key of 256 characters or more, changes
  nothing (the call gives what it gives without that entry, and no error); the array
  then holds, in the order of the input, the addresses of the entries that pass the
  filter, as far as the capacity reaches: the first \<open>out_len - 1\<close> of them, which is all
  of them when there are fewer than \<open>out_len\<close>. The cells hold the addresses of the input
  strings themselves.
\<close>

theorem filter_keeps_passing_entries:
  assumes "1 \<le> out_len" and "out_len \<le> length out"
  shows "(CHR ''='' \<notin> set (strs ent) \<or> 256 \<le> length (key_of (strs ent)) \<longrightarrow>
            osmo_environment_filter strs (Some out) out_len (Some (pre @ ent # post)) (Some wl)
              = osmo_environment_filter strs (Some out) out_len (Some (pre @ post)) (Some wl))
         \<and> osmo_environment_filter strs (Some out) out_len (Some ents) (Some wl) =
             Inr (int_of_size_t (length (take (out_len - 1) (filter (passes strs wl) ents)) + 1),
                  map Some (take (out_len - 1) (filter (passes strs wl) ents))
                    @ None # drop (length (take (out_len - 1) (filter (passes strs wl) ents)) + 1) out)
         \<and> (length (filter (passes strs wl) ents) < out_len \<longrightarrow>
              take (out_len - 1) (filter (passes strs wl) ents) = filter (passes strs wl) ents)"
proof (intro conjI impI)
  assume "CHR ''='' \<notin> set (strs ent) \<or> 256 \<le> length (key_of (strs ent))"
  then have "\<not> passes strs wl ent"
    by (auto simp: passes_def)
  then have "filter (passes strs wl) (pre @ ent # post) = filter (passes strs wl) (pre @ post)"
    by simp
  then show "osmo_environment_filter strs (Some out) out_len (Some (pre @ ent # post)) (Some wl)
              = osmo_environment_filter strs (Some out) out_len (Some (pre @ post)) (Some wl)"
    by (simp only: filter_result [OF assms])
next
  show "osmo_environment_filter strs (Some out) out_len (Some ents) (Some wl) =
             Inr (int_of_size_t (length (take (out_len - 1) (filter (passes strs wl) ents)) + 1),
                  map Some (take (out_len - 1) (filter (passes strs wl) ents))
                    @ None # drop (length (take (out_len - 1) (filter (passes strs wl) ents)) + 1) out)"
    using filter_result [OF assms, of strs ents wl] by (simp only: written_def)
next
  assume "length (filter (passes strs wl) ents) < out_len"
  then show "take (out_len - 1) (filter (passes strs wl) ents) = filter (passes strs wl) ents"
    by simp
qed

theorem filter_keeps_passing_entries_witness:
  "osmo_environment_filter example_strs (Some [Some 77, Some 78, Some 79, Some 80, Some 81]) 4
     (Some [2, 1, 4, 3]) (Some [''HOME'', ''PATH''])
   = Inr (3, [Some 1, Some 3, None, Some 80, Some 81])
   \<and> osmo_environment_filter example_strs (Some [Some 77, Some 78, Some 79, Some 80, Some 81]) 4
     (Some [1, 4, 3]) (Some [''HOME'', ''PATH''])
   = Inr (3, [Some 1, Some 3, None, Some 80, Some 81])"
  using filter_keeps_passing_entries [where out_len = 4
      and out = "[Some 77, Some 78, Some 79, Some 80, Some 81]" and strs = example_strs
      and ent = 2 and pre = "[]" and post = "[1, 4, 3]" and ents = "[1, 4, 3]"
      and wl = "[''HOME'', ''PATH'']"]
  by (simp add: passes_def key_of_def example_strs_def int_of_size_t_def)

text \<open>
  Claim C4 as it is worded fails where the capacity runs out: with room for one entry
  and the sentinel, of two entries that both have a separator, a short key and a key in
  the whitelist, the second is in no cell of the output.
\<close>

theorem filter_drops_entry_beyond_capacity:
  "osmo_environment_filter example_strs (Some [Some 77, Some 78]) 2 (Some [1, 3])
      (Some [''HOME'', ''PATH''])
     = Inr (2, [Some 1, None])
   \<and> CHR ''='' \<in> set (example_strs 3)
   \<and> length (key_of (example_strs 3)) < 256
   \<and> key_of (example_strs 3) \<in> set [''HOME'', ''PATH'']
   \<and> Some 3 \<notin> set [Some 1, None :: ptr]"
  by (simp add: example_strs_def key_of_def write_cell_def int_of_size_t_def)

section \<open>Properties of the environment append\<close>

lemma seek_end_found:
  "k < length out \<Longrightarrow> out ! k = None \<Longrightarrow> (\<forall>i. j \<le> i \<and> i < k \<longrightarrow> out ! i \<noteq> None) \<Longrightarrow> j \<le> k
     \<Longrightarrow> seek_end out j = Inr k"
proof (induction "k - j" arbitrary: j)
  case 0
  then show ?case by (simp add: seek_end.simps)
next
  case (Suc d)
  then have "j < k" and "out ! j \<noteq> None" and "j < length out"
    by auto
  moreover have "seek_end out (j + 1) = Inr k"
    using Suc by auto
  ultimately show ?case
    by (subst seek_end.simps) simp
qed

lemma holds_seek_end: "holds out ents \<Longrightarrow> seek_end out 0 = Inr (length ents)"
proof -
  assume h: "holds out ents"
  have "\<forall>i. 0 \<le> i \<and> i < length ents \<longrightarrow> out ! i \<noteq> None"
  proof (intro allI impI)
    fix i assume "0 \<le> i \<and> i < length ents"
    then have "take (length ents) out ! i = map Some ents ! i" and "i < length ents"
      using h by (simp_all add: holds_def)
    then show "out ! i \<noteq> None" by simp
  qed
  then show ?thesis
    using h by (intro seek_end_found) (simp_all add: holds_def)
qed

lemma append_loop_result:
  "out_used < out_len \<Longrightarrow> out_len \<le> length out \<Longrightarrow>
   append_loop out_len ents out out_used =
     Inr (take out_used out
            @ map Some (take (out_len - 1 - out_used) ents)
            @ drop (out_used + length (take (out_len - 1 - out_used) ents)) out,
          out_used + length (take (out_len - 1 - out_used) ents))"
proof (induction ents arbitrary: out out_used)
  case Nil
  then show ?case by simp
next
  case (Cons ent rest)
  show ?case
  proof (cases "out_used < out_len - 1")
    case False
    then show ?thesis by simp
  next
    case True
    with Cons.prems have lt: "out_used + 1 < out_len" and inb: "out_used < length out"
      by simp_all
    have len: "out_len \<le> length (out[out_used := Some ent])"
      using Cons.prems by simp
    define T' where "T' = take (out_len - 1 - (out_used + 1)) rest"
    have sub: "out_len - 1 - out_used = Suc (out_len - 1 - (out_used + 1))"
      using lt by simp
    have T: "take (out_len - 1 - out_used) (ent # rest) = ent # T'"
      unfolding T'_def sub by simp
    have IH: "append_loop out_len rest (out[out_used := Some ent]) (out_used + 1) =
        Inr (take (out_used + 1) (out[out_used := Some ent]) @ map Some T'
               @ drop (out_used + 1 + length T') (out[out_used := Some ent]),
             out_used + 1 + length T')"
      unfolding T'_def by (rule Cons.IH [OF lt len])
    have step: "append_loop out_len (ent # rest) out out_used =
        append_loop out_len rest (out[out_used := Some ent]) (out_used + 1)"
      using True inb by (simp add: write_cell_def)
    show ?thesis
      unfolding step IH T using inb by (simp add: take_Suc_update)
  qed
qed

lemma append_result:
  assumes "holds out existing" and "length existing < out_len" and "out_len \<le> length out"
  shows "osmo_environment_append (Some out) out_len (Some ents) =
     Inr (int_of_size_t (length (existing @ take (out_len - 1 - length existing) ents) + 1),
          written (existing @ take (out_len - 1 - length existing) ents) out)"
proof -
  define T where "T = take (out_len - 1 - length existing) ents"
  have seek: "seek_end out 0 = Inr (length existing)"
    using assms(1) by (rule holds_seek_end)
  have pre: "take (length existing) out = map Some existing"
    using assms(1) by (simp add: holds_def)
  have loop: "append_loop out_len ents out (length existing) =
      Inr (map Some (existing @ T) @ drop (length (existing @ T)) out, length (existing @ T))"
    using append_loop_result [OF assms(2,3), of ents] by (simp add: T_def pre)
  have lenT: "length (existing @ T) < out_len"
    using assms(2) by (simp add: T_def)
  then have lenT': "length (map Some (existing @ T) :: ptr list) < length out"
    using assms(3) by simp
  have upd: "(map Some (existing @ T) @ drop (length (existing @ T)) out)[length (existing @ T) := None]
      = written (existing @ T) out"
    using update_at_end [OF lenT', of None] by (simp add: written_def)
  have "osmo_environment_append (Some out) out_len (Some ents) =
      Inr (int_of_size_t (length (existing @ T) + 1), written (existing @ T) out)"
    using assms(2) lenT lenT' upd by (simp add: seek loop write_cell_def del: map_append)
  then show ?thesis by (simp only: T_def)
qed

lemma append_null_result:
  assumes "holds out existing" and "1 \<le> out_len"
  shows "osmo_environment_append (Some out) out_len None =
     Inr (if existing = [] then 1 else int_of_size_t (length existing), out)"
proof -
  have seek: "seek_end out 0 = Inr (length existing)"
    using assms(1) by (rule holds_seek_end)
  have "existing = [] \<Longrightarrow> out[0 := None] = out"
    using assms(1) by (simp add: holds_def list_update_same_conv)
  then show ?thesis
    using assms by (auto simp: seek write_cell_def holds_def int_of_size_t_def)
qed

text \<open>
  Where the existing entries already reach the capacity or go beyond it, appending a
  list runs into the assertion.
\<close>

lemma append_beyond_capacity_aborts:
  assumes "holds out existing" and "1 \<le> out_len" and "out_len \<le> length existing"
  shows "osmo_environment_append (Some out) out_len (Some ents) = Inl ASSERT_FAILED"
proof -
  have seek: "seek_end out 0 = Inr (length existing)"
    using assms(1) by (rule holds_seek_end)
  have full: "\<not> length existing < out_len - 1"
    using assms(3) by simp
  have "append_loop out_len ents out (length existing) = Inr (out, length existing)"
  proof (cases ents)
    case Nil
    then show ?thesis by simp
  next
    case (Cons ent rest)
    then show ?thesis using full by simp
  qed
  then show ?thesis
    using assms(2,3) by (simp add: seek)
qed

text \<open>
  Claim C5. Let the array hold the entries \<open>existing\<close> and then the sentinel, within a
  capacity \<open>out_len\<close> that the array really has. Appending a list stores the addresses
  of its entries behind the existing ones, as many as fit before the last cell of the
  capacity, and the sentinel behind them; the existing cells and their order are kept,
  the result is again sentinel-terminated, and no cell from index \<open>out_len\<close> on is
  touched. When everything fits, nothing of the list is dropped (two entries behind two
  give four and the sentinel). A \<open>NULL\<close> list leaves every cell as it was.
\<close>

theorem append_keeps_existing_first:
  assumes "holds out existing" and "length existing < out_len" and "out_len \<le> length out"
  shows "osmo_environment_append (Some out) out_len (Some ents) =
           Inr (int_of_size_t (length (existing @ take (out_len - 1 - length existing) ents) + 1),
                map Some existing @ map Some (take (out_len - 1 - length existing) ents)
                  @ None # drop (length (existing @ take (out_len - 1 - length existing) ents) + 1) out)
         \<and> holds (written (existing @ take (out_len - 1 - length existing) ents) out)
                 (existing @ take (out_len - 1 - length existing) ents)
         \<and> drop out_len (written (existing @ take (out_len - 1 - length existing) ents) out)
             = drop out_len out
         \<and> (length existing + length ents < out_len \<longrightarrow>
              take (out_len - 1 - length existing) ents = ents)
         \<and> (\<exists>n. osmo_environment_append (Some out) out_len None = Inr (n, out))"
proof -
  have fits: "length (existing @ take (out_len - 1 - length existing) ents) < out_len"
    using assms(2) by simp
  then have inside: "length (existing @ take (out_len - 1 - length existing) ents) < length out"
    using assms(3) by simp
  have "osmo_environment_append (Some out) out_len (Some ents) =
           Inr (int_of_size_t (length (existing @ take (out_len - 1 - length existing) ents) + 1),
                map Some existing @ map Some (take (out_len - 1 - length existing) ents)
                  @ None # drop (length (existing @ take (out_len - 1 - length existing) ents) + 1) out)"
    using append_result [OF assms, of ents] by (simp add: written_def)
  moreover have "holds (written (existing @ take (out_len - 1 - length existing) ents) out)
                 (existing @ take (out_len - 1 - length existing) ents)"
    using inside by (rule holds_written)
  moreover have "drop out_len (written (existing @ take (out_len - 1 - length existing) ents) out)
             = drop out_len out"
    using fits by (rule drop_written)
  moreover have "length existing + length ents < out_len \<longrightarrow>
              take (out_len - 1 - length existing) ents = ents"
    by simp
  moreover have "\<exists>n. osmo_environment_append (Some out) out_len None = Inr (n, out)"
    using append_null_result [OF assms(1), of out_len] assms(2) by simp
  ultimately show ?thesis by blast
qed

theorem append_keeps_existing_first_witness:
  "osmo_environment_append (Some [Some 1, Some 3, None, Some 80, Some 81, Some 82]) 6
      (Some [4, 5])
     = Inr (5, [Some 1, Some 3, Some 4, Some 5, None, Some 82])
   \<and> osmo_environment_append (Some [Some 1, Some 3, None, Some 80, Some 81, Some 82]) 4
      (Some [4, 5])
     = Inr (4, [Some 1, Some 3, Some 4, None, Some 81, Some 82])"
  using append_keeps_existing_first [of "[Some 1, Some 3, None, Some 80, Some 81, Some 82]"
      "[1, 3]" 6 "[4, 5]"]
    append_keeps_existing_first [of "[Some 1, Some 3, None, Some 80, Some 81, Some 82]"
      "[1, 3]" 4 "[4, 5]"]
  by (simp add: holds_def int_of_size_t_def)




section \<open>Properties of the descriptor sweep\<close>

lemma close_loop_calls:
  "close_calls (close_loop cf keep dfd names p) =
     close_calls p @ filter (\<lambda>fd. keep < fd \<and> fd \<noteq> dfd) (map atoi names)"
  by (induction names arbitrary: p) (auto simp: Let_def close_fd_def LOGP_def)

lemma close_loop_open:
  "open_fds (close_loop cf keep dfd names p) =
     filter (\<lambda>fd. \<not> (keep < fd \<and> fd \<noteq> dfd \<and> fd \<in> atoi ` set names \<and> \<not> cf fd)) (open_fds p)"
proof (induction names arbitrary: p)
  case Nil
  then show ?case by simp
next
  case (Cons nm rest)
  show ?case
    by (auto simp: Let_def close_fd_def LOGP_def Cons.IH removeAll_filter_not_eq 
        intro!: filter_cong)
qed

lemma close_loop_log_mono:
  "set (log_lines p) \<subseteq> set (log_lines (close_loop cf keep dfd names p))"
proof (induction names arbitrary: p)
  case Nil
  then show ?case by simp
next
  case (Cons nm rest)
  have "set (log_lines p) \<subseteq> set (log_lines (LOGP l (snd (close_fd cf fd p))))" for l fd
    by (auto simp: LOGP_def close_fd_def)
  moreover have "set (log_lines p) \<subseteq> set (log_lines (snd (close_fd cf fd p)))" for fd
    by (auto simp: close_fd_def)
  ultimately show ?case
    using Cons.IH by (auto simp: Let_def split: prod.splits) (metis snd_conv subsetD)+
qed

lemma close_loop_failure_logged:
  "fd \<in> atoi ` set names \<Longrightarrow> keep < fd \<Longrightarrow> fd \<noteq> dfd \<Longrightarrow> cf fd
     \<Longrightarrow> Error_closing_fd fd \<in> set (log_lines (close_loop cf keep dfd names p))"
proof (induction names arbitrary: p)
  case Nil
  then show ?case by simp
next
  case (Cons nm rest)
  show ?case
  proof (cases "atoi nm = fd")
    case True
    define p' where "p' = LOGP (Error_closing_fd fd) (snd (close_fd cf fd p))"
    have "Error_closing_fd fd \<in> set (log_lines p')"
      by (simp add: p'_def LOGP_def)
    moreover have "close_loop cf keep dfd (nm # rest) p = close_loop cf keep dfd rest p'"
      using True Cons.prems by (simp add: p'_def Let_def close_fd_def)
    ultimately show ?thesis
      using close_loop_log_mono [of p' cf keep dfd rest] by auto
  next
    case False
    then have "fd \<in> atoi ` set rest" using Cons.prems by auto
    then show ?thesis
      using Cons.IH Cons.prems by (simp add: Let_def split: prod.splits)
  qed
qed

text \<open>
  Claim C7. The call returns \<open>-ENODEV\<close> exactly when \<open>/proc/self/fd\<close> cannot be
  opened, and then closes nothing; otherwise it returns 0, whatever the \<open>close\<close> calls
  return. When the directory is open, \<open>close\<close> is called once for every name of the
  listing whose number is above the threshold (and is not the stream's own descriptor,
  which \<open>closedir\<close> releases), in the order of the listing, so that a failing \<open>close\<close>
  stops nothing; each descriptor whose \<open>close\<close> fails is reported to the log. The
  descriptors open afterwards are those that were open before, less the stream's and less
  the listed ones above the threshold whose \<open>close\<close> does not fail: descriptors up to
  the threshold stay open. When the listing names every open descriptor and no \<open>close\<close>
  fails, exactly the descriptors up to the threshold are left.
\<close>

theorem close_all_fds_above_sweeps:
  "(fst (osmo_close_all_fds_above d cf keep p) = Some ENODEV \<longleftrightarrow> d = None)
   \<and> (fst (osmo_close_all_fds_above d cf keep p) = None \<longleftrightarrow> d \<noteq> None)
   \<and> (d = None \<longrightarrow>
        open_fds (snd (osmo_close_all_fds_above d cf keep p)) = open_fds p
        \<and> close_calls (snd (osmo_close_all_fds_above d cf keep p)) = close_calls p)
   \<and> (\<forall>dr. d = Some dr \<longrightarrow>
        close_calls (snd (osmo_close_all_fds_above d cf keep p)) =
          close_calls p @ filter (\<lambda>fd. keep < fd \<and> fd \<noteq> dirfd dr) (map atoi (d_names dr))
        \<and> open_fds (snd (osmo_close_all_fds_above d cf keep p)) =
            filter (\<lambda>fd. fd \<noteq> dirfd dr
                     \<and> \<not> (keep < fd \<and> fd \<in> atoi ` set (d_names dr) \<and> \<not> cf fd)) (open_fds p)
        \<and> (\<forall>fd \<in> atoi ` set (d_names dr). keep < fd \<and> fd \<noteq> dirfd dr \<and> cf fd \<longrightarrow>
              Error_closing_fd fd \<in> set (log_lines (snd (osmo_close_all_fds_above d cf keep p))))
        \<and> (set (open_fds p) \<subseteq> atoi ` set (d_names dr) \<and> dirfd dr \<notin> set (open_fds p)
             \<and> (\<forall>fd. \<not> cf fd) \<longrightarrow>
              open_fds (snd (osmo_close_all_fds_above d cf keep p))
                = filter (\<lambda>fd. fd \<le> keep) (open_fds p)))"
proof (cases d)
  case None
  then show ?thesis
    by (simp add: osmo_close_all_fds_above_def opendir_def LOGP_def)
next
  case (Some dr)
  have calls: "close_calls (snd (osmo_close_all_fds_above d cf keep p)) =
          close_calls p @ filter (\<lambda>fd. keep < fd \<and> fd \<noteq> dirfd dr) (map atoi (d_names dr))"
    using Some
    by (simp add: osmo_close_all_fds_above_def opendir_def closedir_def close_loop_calls)
  have opn: "open_fds (snd (osmo_close_all_fds_above d cf keep p)) =
            filter (\<lambda>fd. fd \<noteq> dirfd dr
                     \<and> \<not> (keep < fd \<and> fd \<in> atoi ` set (d_names dr) \<and> \<not> cf fd)) (open_fds p)"
    using Some
    by (auto simp: osmo_close_all_fds_above_def opendir_def closedir_def close_loop_open
        removeAll_filter_not_eq intro!: filter_cong)
  have logged: "\<forall>fd \<in> atoi ` set (d_names dr). keep < fd \<and> fd \<noteq> dirfd dr \<and> cf fd \<longrightarrow>
              Error_closing_fd fd \<in> set (log_lines (snd (osmo_close_all_fds_above d cf keep p)))"
    using Some
    by (auto simp: osmo_close_all_fds_above_def closedir_def intro!: close_loop_failure_logged)
  have all: "set (open_fds p) \<subseteq> atoi ` set (d_names dr) \<and> dirfd dr \<notin> set (open_fds p)
             \<and> (\<forall>fd. \<not> cf fd) \<longrightarrow>
              open_fds (snd (osmo_close_all_fds_above d cf keep p))
                = filter (\<lambda>fd. fd \<le> keep) (open_fds p)"
    unfolding opn by (auto intro!: filter_cong)
  show ?thesis
    using Some calls opn logged all
    by (simp add: osmo_close_all_fds_above_def)
qed

theorem close_all_fds_above_sweeps_witness:
  "osmo_close_all_fds_above
     (Some \<lparr>dirfd = 3, d_names = [''.'', ''..'', ''0'', ''1'', ''2'', ''3'', ''5'', ''7'']\<rparr>)
     (\<lambda>fd. False) 2 \<lparr>open_fds = [0, 1, 2, 5, 7], close_calls = [], log_lines = []\<rparr>
   = (None, \<lparr>open_fds = [0, 1, 2], close_calls = [5, 7], log_lines = []\<rparr>)
   \<and> osmo_close_all_fds_above
     (Some \<lparr>dirfd = 3, d_names = [''.'', ''..'', ''0'', ''1'', ''2'', ''3'', ''5'', ''7'']\<rparr>)
     (\<lambda>fd. fd = 5) 2 \<lparr>open_fds = [0, 1, 2, 5, 7], close_calls = [], log_lines = []\<rparr>
   = (None, \<lparr>open_fds = [0, 1, 2, 5], close_calls = [5, 7], log_lines = [Error_closing_fd 5]\<rparr>)
   \<and> osmo_close_all_fds_above None (\<lambda>fd. False) 2
        \<lparr>open_fds = [0, 1, 2, 5, 7], close_calls = [], log_lines = []\<rparr>
   = (Some ENODEV, \<lparr>open_fds = [0, 1, 2, 5, 7], close_calls = [],
                    log_lines = [Cannot_open_proc_self_fd]\<rparr>)"
  using close_all_fds_above_sweeps
    [where d = "Some \<lparr>dirfd = 3, d_names = [''.'', ''..'', ''0'', ''1'', ''2'', ''3'', ''5'', ''7'']\<rparr>"
       and cf = "\<lambda>fd. False" and keep = 2
       and p = "\<lparr>open_fds = [0, 1, 2, 5, 7], close_calls = [], log_lines = []\<rparr>"]
  by (simp add: osmo_close_all_fds_above_def opendir_def closedir_def close_fd_def LOGP_def
      atoi_def isspace_def isdigit_def)

section \<open>Properties of the launch\<close>

lemma takeWhile_entries:
  "takeWhile (\<lambda>c. c \<noteq> None) (map Some ents @ None # rest) = map Some ents"
  by (induction ents) simp_all

lemma envp_of_written: "envp_of strs (written ents out) = map strs ents"
  unfolding envp_of_def written_def takeWhile_entries by (simp add: comp_def)

lemma new_env_filter:
  assumes "length new_env = 1024"
  shows "\<exists>n. osmo_environment_filter strs (Some new_env) 1024 environ (Some wl) =
           Inr (n, written (case environ of None \<Rightarrow> []
                            | Some ents \<Rightarrow> take 1023 (filter (passes strs wl) ents)) new_env)"
proof (cases environ)
  case None
  have "new_env \<noteq> []" using assms by auto
  then have "new_env[0 := None] = written [] new_env"
    by (cases new_env) (simp_all add: written_def)
  then show ?thesis
    using None \<open>new_env \<noteq> []\<close> by (simp add: write_cell_def)
next
  case (Some ents)
  then show ?thesis
    using filter_result [of 1024 new_env strs ents wl] assms by simp
qed

lemma new_env_append:
  assumes "length new_env = 1024" and "length kept \<le> 1023"
  shows "\<exists>n. osmo_environment_append (Some (written kept new_env)) 1024 addl_env =
           Inr (n, written (kept @ (case addl_env of None \<Rightarrow> []
                                    | Some ents \<Rightarrow> take (1023 - length kept) ents)) new_env)"
proof -
  have inside: "length kept < length new_env" using assms by simp
  have h: "holds (written kept new_env) kept"
    using inside by (rule holds_written)
  have len: "length (written kept new_env) = 1024"
    using length_written [OF inside] assms by simp
  show ?thesis
  proof (cases addl_env)
    case None
    then show ?thesis
      using append_null_result [OF h, of 1024] by simp
  next
    case (Some ents)
    have "written (kept @ take (1023 - length kept) ents) (written kept new_env)
        = written (kept @ take (1023 - length kept) ents) new_env"
      by (simp add: written_def drop_Cons' ac_simps)
    then show ?thesis
      using Some append_result [OF h, of 1024 ents] assms(2) len by simp
  qed
qed

lemma child_result:
  "child strs environ garbage d cf ok command addl_env p =
     (if ok then Inr (Replaced ''/bin/sh'' [''sh'', ''-c'', command]
                        (map strs (built_env strs environ addl_env)))
      else Inl EIO,
      [Close_all_fds_above 2, Environment_filter, Environment_append, Execle],
      if ok then snd (osmo_close_all_fds_above d cf 2 p)
      else LOGP (Error_executing_command command) (snd (osmo_close_all_fds_above d cf 2 p)))"
proof -
  define new_env where "new_env = map garbage [0..<1024]"
  define kept where "kept = (case environ of None \<Rightarrow> []
      | Some ents \<Rightarrow> take 1023 (filter (passes strs environment_whitelist) ents))"
  have len: "length new_env = 1024" by (simp add: new_env_def)
  have lk: "length kept \<le> 1023" by (simp add: kept_def split: option.splits)
  obtain n1 where f: "osmo_environment_filter strs (Some new_env) 1024 environ
      (Some environment_whitelist) = Inr (n1, written kept new_env)"
    using new_env_filter [OF len, of strs environ environment_whitelist]
    unfolding kept_def by blast
  obtain n2 where a: "osmo_environment_append (Some (written kept new_env)) 1024 addl_env =
      Inr (n2, written (kept @ (case addl_env of None \<Rightarrow> []
                                 | Some ents \<Rightarrow> take (1023 - length kept) ents)) new_env)"
    using new_env_append [OF len lk, of addl_env] by blast
  have b: "built_env strs environ addl_env =
      kept @ (case addl_env of None \<Rightarrow> [] | Some ents \<Rightarrow> take (1023 - length kept) ents)"
    by (simp only: built_env_def kept_def Let_def)
  show ?thesis
    unfolding child_def Let_def new_env_def [symmetric]
    by (simp add: f a b envp_of_written
        del: osmo_environment_filter.simps osmo_environment_append.simps)
qed

text \<open>
  Claim C8. When \<open>fork\<close> returns a positive process identifier (the parent's side
  of a fork that succeeded), \<open>osmo_system_nowait\<close> returns that identifier; when \<open>fork\<close>
  returns a negative value (no child was made), it returns that negative value. On
  either path the process makes no call at all after \<open>fork\<close>: none of the child's steps,
  and no wait for a child; its descriptors and log are untouched, and nothing of what
  the child meets (the descriptor listing, failing closes, the outcome of \<open>execle\<close>)
  enters the result.
\<close>

theorem nowait_parent_returns_fork_result:
  "(0 < fork_rc \<longrightarrow>
      osmo_system_nowait fork_rc strs environ garbage d cf ok command addl_env p
        = (Inr (Returns fork_rc), [], p))
   \<and> (fork_rc < 0 \<longrightarrow>
      osmo_system_nowait fork_rc strs environ garbage d cf ok command addl_env p
        = (Inr (Returns fork_rc), [], p))"
  by (simp add: osmo_system_nowait_def)

theorem nowait_parent_returns_fork_result_witness:
  "osmo_system_nowait 4242 example_strs (Some [1, 3]) example_garbage (Some example_dir)
      example_close_fails True ''true'' None example_process
     = (Inr (Returns 4242), [], example_process)
   \<and> osmo_system_nowait (- 1) example_strs (Some [1, 3]) example_garbage (Some example_dir)
      example_close_fails True ''true'' None example_process
     = (Inr (Returns (- 1)), [], example_process)"
  using nowait_parent_returns_fork_result [of 4242 example_strs "Some [1, 3]" example_garbage
      "Some example_dir" example_close_fails True "''true''" None example_process]
    nowait_parent_returns_fork_result [of "- 1" example_strs "Some [1, 3]" example_garbage
      "Some example_dir" example_close_fails True "''true''" None example_process]
  by simp

text \<open>
  Claim C9, as the code has it. On the child's side (\<open>fork\<close> returned 0) the calls
  are, in this order: the closing of all descriptors above 2 (step 3), the filtering of
  the environment (step 1), the append of the additional entries (step 2), and then
  \<open>execle\<close> of the shell. This holds for every input; no helper call faults on the
  1024-cell array.
\<close>

theorem child_closes_fds_before_building_env:
  "fst (snd (osmo_system_nowait 0 strs environ garbage d cf ok command addl_env p))
     = [Close_all_fds_above 2, Environment_filter, Environment_append, Execle]"
  by (simp add: osmo_system_nowait_def child_result)

text \<open>
  Claim C9 as it is worded, with the descriptors closed after the environment is built,
  fails: launching \<open>true\<close>, the child's first call is the closing of the descriptors,
  and the sequence of its calls is not filter, append, close, exec.
\<close>

theorem child_call_order_differs:
  "fst (snd (osmo_system_nowait 0 example_strs (Some [1, 2, 3, 4]) example_garbage
        (Some example_dir) example_close_fails True ''true'' None example_process))
     = [Close_all_fds_above 2, Environment_filter, Environment_append, Execle]
   \<and> [Close_all_fds_above 2, Environment_filter, Environment_append, Execle]
     \<noteq> [Environment_filter, Environment_append, Close_all_fds_above 2, Execle]"
  by (simp add: osmo_system_nowait_def child_result)

end
